theory Spec2Isabelle
  imports Main
begin

section \<open>JavaScript values used by the viewer code\<close>

text \<open>
  Strings are lists of characters (code units below 256).

  A JavaScript \<open>number\<close> is a double. The code below only meets numbers that are
  integers or infinite (loop counters started from an integer, results of \<open>parseInt\<close>):
  such a number is an \<open>int\<close>, its value, with \<open>2 ^ 1024\<close> standing for \<open>Infinity\<close> and
  \<open>- 2 ^ 1024\<close> for \<open>-Infinity\<close>; \<open>NaN\<close> is \<open>None\<close> of \<open>int option\<close>. Not every integer
  is a double: above \<open>2 ^ 53\<close> in absolute value only multiples of a power of two are.
  A call that never returns has the value \<open>None\<close> of an \<open>option\<close> result.
\<close>

datatype error = TypeError | HostError string

subsection \<open>Numbers: rounding to a double, increment\<close>

definition jsInfinity :: int where
  "jsInfinity = 2 ^ 1024"

text \<open>The number of low bits that do not fit into the 53 bits of a double's mantissa.\<close>

function dropBits :: "int \<Rightarrow> nat" where
  "dropBits a = (if a < 2 ^ 53 then 0 else Suc (dropBits (a div 2)))"
  by pat_completeness auto
termination
  by (relation "measure nat") auto

declare dropBits.simps [simp del]

text \<open>
  The double nearest to an integer, ties going to the even mantissa (IEEE 754
  round-to-nearest-even), and overflow going to infinity. Integers below \<open>2 ^ 53\<close> in
  absolute value are doubles themselves.
\<close>

definition roundDouble :: "int \<Rightarrow> int" where
  "roundDouble x =
     (let a = \<bar>x\<bar>;
          e = dropBits a;
          q = a div 2 ^ e;
          r = a mod 2 ^ e;
          up = (2 ^ e < 2 * r \<or> (2 * r = 2 ^ e \<and> odd q));
          v = (if up then q + 1 else q) * 2 ^ e;
          w = (if jsInfinity \<le> v then jsInfinity else v)
      in if x < 0 then - w else w)"

text \<open>\<open>n++\<close> on a number: the double nearest to \<open>n + 1\<close>.\<close>

definition jsInc :: "int \<Rightarrow> int" where
  "jsInc n = roundDouble (n + 1)"

subsection \<open>String.prototype.indexOf, split, trim\<close>

fun startsWith :: "string \<Rightarrow> string \<Rightarrow> bool" where
  "startsWith s [] = True"
| "startsWith [] (n # ns) = False"
| "startsWith (c # s) (n # ns) = (c = n \<and> startsWith s ns)"

text \<open>\<open>hay.indexOf(needle)\<close> on strings: the first position where \<open>needle\<close> occurs, or \<open>-1\<close>.\<close>

fun indexOfFrom :: "string \<Rightarrow> string \<Rightarrow> int \<Rightarrow> int" where
  "indexOfFrom [] needle k = (if needle = [] then k else -1)"
| "indexOfFrom (c # s) needle k =
     (if startsWith (c # s) needle then k else indexOfFrom s needle (k + 1))"

definition indexOf :: "string \<Rightarrow> string \<Rightarrow> int" where
  "indexOf hay needle = indexOfFrom hay needle 0"

text \<open>\<open>arr.indexOf(x)\<close> on an array of strings: strict equality of primitive strings.\<close>

fun arrayIndexOfFrom :: "string list \<Rightarrow> string \<Rightarrow> int \<Rightarrow> int" where
  "arrayIndexOfFrom [] x k = -1"
| "arrayIndexOfFrom (y # ys) x k = (if y = x then k else arrayIndexOfFrom ys x (k + 1))"

definition arrayIndexOf :: "string list \<Rightarrow> string \<Rightarrow> int" where
  "arrayIndexOf ys x = arrayIndexOfFrom ys x 0"

text \<open>\<open>s.split(c)\<close> for a one-character separator; the result is never empty.\<close>

fun split_on :: "char \<Rightarrow> string \<Rightarrow> string list" where
  "split_on sep [] = [[]]"
| "split_on sep (c # s) =
     (if c = sep then [] # split_on sep s
      else (case split_on sep s of [] \<Rightarrow> [[c]] | w # ws \<Rightarrow> (c # w) # ws))"

text \<open>White space and line terminators among the code units below 256.\<close>

definition isWhiteSpace :: "char \<Rightarrow> bool" where
  "isWhiteSpace c = (of_char c \<in> {9, 10, 11, 12, 13, 32, 160 :: nat})"

definition trim :: "string \<Rightarrow> string" where
  "trim s = rev (dropWhile isWhiteSpace (rev (dropWhile isWhiteSpace s)))"

subsection \<open>parseInt and Number.prototype.toString\<close>

definition digitValue :: "char \<Rightarrow> nat option" where
  "digitValue c =
     (let n = (of_char c :: nat) in
      if 48 \<le> n \<and> n \<le> 57 then Some (n - 48)
      else if 97 \<le> n \<and> n \<le> 102 then Some (n - 87)
      else if 65 \<le> n \<and> n \<le> 70 then Some (n - 55)
      else None)"

definition isRadixDigit :: "nat \<Rightarrow> char \<Rightarrow> bool" where
  "isRadixDigit R c = (case digitValue c of None \<Rightarrow> False | Some d \<Rightarrow> d < R)"

fun digitsValue :: "nat \<Rightarrow> int \<Rightarrow> string \<Rightarrow> int" where
  "digitsValue R acc [] = acc"
| "digitsValue R acc (c # s) =
     digitsValue R (acc * int R + (case digitValue c of None \<Rightarrow> 0 | Some d \<Rightarrow> int d)) s"

text \<open>
  \<open>parseInt(s)\<close> without a radix: leading white space is dropped, then a sign, then a
  \<open>0x\<close>/\<open>0X\<close> prefix selects radix 16, and the longest prefix of digits is read;
  no digit at all gives \<open>NaN\<close>. The result is the double nearest to the integer read.
\<close>

definition parseInt :: "string \<Rightarrow> int option" where
  "parseInt inputString =
     (let S = dropWhile isWhiteSpace inputString;
          sign = (case S of c # _ \<Rightarrow> if c = CHR ''-'' then - 1 else 1 | [] \<Rightarrow> (1 :: int));
          S1 = (case S of c # r \<Rightarrow> if c = CHR ''+'' \<or> c = CHR ''-'' then r else S | [] \<Rightarrow> S);
          hex = (take 2 S1 = ''0x'' \<or> take 2 S1 = ''0X'');
          R = (if hex then 16 else 10);
          S2 = (if hex then drop 2 S1 else S1);
          Z = takeWhile (isRadixDigit R) S2
      in if Z = [] then None else Some (roundDouble (sign * digitsValue R 0 Z)))"

definition digitChar :: "nat \<Rightarrow> char" where
  "digitChar d = char_of (48 + d)"

text \<open>The decimal digits of an integer that is not negative.\<close>

function natToString :: "int \<Rightarrow> string" where
  "natToString n =
     (if n < 10 then [digitChar (nat n)] else natToString (n div 10) @ [digitChar (nat (n mod 10))])"
  by pat_completeness auto
termination
  by (relation "measure nat") auto

text \<open>
  \<open>i.toString()\<close> of an integer: its decimal digits. This is what JavaScript prints for
  a double that holds an integer below \<open>2 ^ 54\<close> in absolute value, so for every integer
  below \<open>2 ^ 53\<close>. Larger numbers are printed with the shortest digits that read back as
  the same double, which the model leaves out: the loop that prints the numbers of a
  range does not return from such a number (\<open>rangeTokens_large\<close> below).
\<close>

definition toString :: "int \<Rightarrow> string" where
  "toString i = (if i < 0 then CHR ''-'' # natToString (- i) else natToString i)"

section \<open>Range expansion (viewer: getLociFromRange, createComponentFromRange)\<close>







section \<open>Operator expressions (preset: parseOperatorList, equals)\<close>

text \<open>
  The regular expression \<^verbatim>\<open>/\(?([^()]+)\)?]*/g\<close> is run with \<open>exec\<close> until it fails.
  A match can start at a character that is no parenthesis, or at an opening parenthesis
  followed by such a character; it captures the longest run of characters that are no
  parentheses, then takes one closing parenthesis and any closing square brackets.
  \<open>oeExec\<close> returns the captured group and the text after the match (where the next
  \<open>exec\<close> starts).
\<close>

definition isParen :: "char \<Rightarrow> bool" where
  "isParen c = (c = CHR ''('' \<or> c = CHR '')'')"

definition oeMatchRun :: "string \<Rightarrow> string \<times> string" where
  "oeMatchRun s =
     (let g = takeWhile (\<lambda>c. \<not> isParen c) s;
          r1 = dropWhile (\<lambda>c. \<not> isParen c) s;
          r2 = (case r1 of c # r \<Rightarrow> if c = CHR '')'' then r else r1 | [] \<Rightarrow> r1)
      in (g, dropWhile (\<lambda>c. c = CHR '']'') r2))"

fun oeExec :: "string \<Rightarrow> (string \<times> string) option" where
  "oeExec [] = None"
| "oeExec (c # s) =
     (if \<not> isParen c then Some (oeMatchRun (c # s))
      else if c = CHR ''('' \<and> (case s of d # _ \<Rightarrow> \<not> isParen d | [] \<Rightarrow> False) then Some (oeMatchRun s)
      else oeExec s)"

lemma oeMatchRun_length: "length (snd (oeMatchRun s)) \<le> length s"
proof -
  let ?r1 = "dropWhile (\<lambda>c. \<not> isParen c) s"
  let ?r2 = "case ?r1 of c # r \<Rightarrow> if c = CHR '')'' then r else ?r1 | [] \<Rightarrow> ?r1"
  have "length (dropWhile (\<lambda>c. c = CHR '']'') ?r2) \<le> length ?r2"
    by (rule length_dropWhile_le)
  also have "length ?r2 \<le> length ?r1"
    by (simp split: list.split)
  also have "length ?r1 \<le> length s"
    by (rule length_dropWhile_le)
  finally show ?thesis
    by (simp add: oeMatchRun_def Let_def)
qed

lemma oeExec_shorter: "oeExec s = Some (g, r) \<Longrightarrow> length r < length s"
proof (induction s)
  case Nil
  then show ?case by simp
next
  case (Cons c s)
  show ?case
  proof (cases "\<not> isParen c")
    case True
    then have "oeMatchRun (c # s) = (g, r)"
      using Cons.prems by simp
    moreover have "length (snd (oeMatchRun (c # s))) \<le> length s"
    proof -
      have "dropWhile (\<lambda>c. \<not> isParen c) (c # s) = dropWhile (\<lambda>c. \<not> isParen c) s"
        using True by simp
      then have "snd (oeMatchRun (c # s)) = snd (oeMatchRun s)"
        by (simp add: oeMatchRun_def Let_def)
      then show ?thesis
        using oeMatchRun_length [of s] by simp
    qed
    ultimately show ?thesis by simp
  next
    case False
    then show ?thesis
      using Cons oeMatchRun_length [of s]
      by (auto split: if_splits list.splits)
  qed
qed

function oeGroups :: "string \<Rightarrow> string list" where
  "oeGroups s = (case oeExec s of None \<Rightarrow> [] | Some (g, r) \<Rightarrow> g # oeGroups r)"
  by pat_completeness auto
termination
  by (relation "measure length") (auto dest: oeExec_shorter)

declare oeGroups.simps [simp del]

text \<open>
  The loop of a range element:
  \<^verbatim>\<open>for (let i = from; i <= to; i++) group[group.length] = i.toString();\<close>
  A comparison with \<open>NaN\<close> is false, so a bound that is \<open>NaN\<close> ends the loop at once.
  As above, the loop need not end.
\<close>

partial_function (option) rangeTokens :: "int \<Rightarrow> int \<Rightarrow> string list \<Rightarrow> string list option" where
  "rangeTokens i to grp =
     (if i \<le> to then rangeTokens (jsInc i) to (grp @ [toString i]) else Some grp)"

declare rangeTokens.simps [code]

text \<open>
  The bounds of a range element \<open>e\<close> with \<open>dashIndex = e.indexOf('-')\<close>:
  \<open>parseInt(e.substring(0, dashIndex))\<close> and \<open>parseInt(e.substr(dashIndex + 1))\<close>.
\<close>

definition rangeFrom :: "string \<Rightarrow> int option" where
  "rangeFrom e = parseInt (take (nat (indexOf e ''-'')) e)"

definition rangeTo :: "string \<Rightarrow> int option" where
  "rangeTo e = parseInt (drop (nat (indexOf e ''-'' + 1)) e)"

text \<open>
  The body of \<open>g.split(',').forEach(e => ...)\<close>: what one element \<open>e\<close> does to the
  array \<open>group\<close> (here \<open>grp\<close>).
\<close>

definition parseElement :: "string list \<Rightarrow> string \<Rightarrow> string list option" where
  "parseElement grp e =
     (let dashIndex = indexOf e ''-'' in
      if dashIndex > 0 then
        (case (rangeFrom e, rangeTo e) of
           (Some from, Some to) \<Rightarrow> rangeTokens from to grp
         | _ \<Rightarrow> Some grp)
      else Some (grp @ [trim e]))"


fun forEachElement :: "string list \<Rightarrow> string list \<Rightarrow> string list option" where
  "forEachElement grp [] = Some grp"
| "forEachElement grp (e # es) =
     (case parseElement grp e of None \<Rightarrow> None | Some grp' \<Rightarrow> forEachElement grp' es)"

definition parseGroup :: "string \<Rightarrow> string list option" where
  "parseGroup g = forEachElement [] (split_on CHR '','' g)"

text \<open>\<open>groups.forEach(g => { ...; ret[ret.length] = group; })\<close>\<close>

fun forEachGroup :: "string list list \<Rightarrow> string list \<Rightarrow> string list list option" where
  "forEachGroup ret [] = Some ret"
| "forEachGroup ret (g # gs) =
     (case parseGroup g of None \<Rightarrow> None | Some grp \<Rightarrow> forEachGroup (ret @ [grp]) gs)"

definition parseOperatorList :: "string \<Rightarrow> string list list option" where
  "parseOperatorList v = forEachGroup [] (oeGroups v)"

text \<open>
  \<open>equals(expr, val)\<close>: the counting loop
  \<^verbatim>\<open>for (let i = 0, il = Math.min(list.length, split.length); i < il; i++)
    if (list[i].indexOf(split[i]) !== -1) matches++;\<close>
  and the final test \<open>matches === split.length\<close>.
\<close>

function equalsLoop :: "string list list \<Rightarrow> string list \<Rightarrow> nat \<Rightarrow> nat \<Rightarrow> nat \<Rightarrow> nat" where
  "equalsLoop lst spl i il matches =
     (if i < il
      then equalsLoop lst spl (i + 1) il
             (if arrayIndexOf (lst ! i) (spl ! i) \<noteq> - 1 then matches + 1 else matches)
      else matches)"
  by pat_completeness auto
termination
  by (relation "measure (\<lambda>(lst, spl, i, il, matches). il - i)") auto

declare equalsLoop.simps [simp del]

definition equals :: "string \<Rightarrow> string \<Rightarrow> bool option" where
  "equals expr val =
     (case parseOperatorList expr of
        None \<Rightarrow> None
      | Some lst \<Rightarrow>
          Some (let spl = split_on CHR ''x'' val;
                    matches = equalsLoop lst spl 0 (min (length lst) (length spl)) 0
                in matches = length spl))"

section \<open>Assembly-id inference (preset: determineAssemblyId)\<close>

text \<open>
  Of a \<open>Target\<close> (declared in \<^verbatim>\<open>./selection\<close>) the function reads two optional fields.
\<close>

record target =
  struct_oper_id :: "string option"
  label_asym_id :: "string option"

record MotifProps =
  label :: "string option"
  targets :: "target list"
  color :: "int option"
  assemblyId :: "string option"
  modelIndex :: "int option"

text \<open>
  The metadata category \<open>pdbx_struct_assembly_gen\<close> as the code uses it: \<open>rowCount\<close>, and
  three \<open>getField\<close> results, each \<open>undefined\<close> (\<open>None\<close>) or a field whose \<open>str(i)\<close> gives
  a string or throws. Reaching the category through
  \<^verbatim>\<open>traj.obj.data.representative.sourceData.data.frame.categories\<close> and calling \<open>getField\<close>
  on it throws (\<open>Inl\<close>) when a link of that chain is missing or the accessor fails.
\<close>

type_synonym field = "nat \<Rightarrow> error + string"

record category =
  rowCount :: nat
  assembly_id :: "field option"
  oper_expression :: "field option"
  asym_id_list :: "field option"

type_synonym traj = "error + category"

definition str :: "field option \<Rightarrow> nat \<Rightarrow> error + string" where
  "str f i = (case f of None \<Rightarrow> Inl TypeError | Some g \<Rightarrow> g i)"

text \<open>
  \<^verbatim>\<open>p.targets.map(t => [t.struct_oper_id || '1', t.label_asym_id!])
     .filter((x, i, a) => a.indexOf(x) === i)\<close>
  Every \<open>[.., ..]\<close> is a new array object, and \<open>indexOf\<close> compares objects by identity:
  an array is modelled as its address together with its two elements.
\<close>

type_synonym idPair = "string \<times> string option"

definition idOf :: "target \<Rightarrow> idPair" where
  "idOf t =
     ((case struct_oper_id t of None \<Rightarrow> ''1'' | Some s \<Rightarrow> if s = [] then ''1'' else s),
      label_asym_id t)"

fun allocate :: "nat \<Rightarrow> 'a list \<Rightarrow> (nat \<times> 'a) list" where
  "allocate n [] = []"
| "allocate n (x # xs) = (n, x) # allocate (Suc n) xs"

fun refIndexOfFrom :: "(nat \<times> 'a) list \<Rightarrow> nat \<Rightarrow> int \<Rightarrow> int" where
  "refIndexOfFrom [] addr k = - 1"
| "refIndexOfFrom (y # ys) addr k = (if fst y = addr then k else refIndexOfFrom ys addr (k + 1))"

definition refIndexOf :: "(nat \<times> 'a) list \<Rightarrow> nat \<times> 'a \<Rightarrow> int" where
  "refIndexOf a x = refIndexOfFrom a (fst x) 0"

fun filterIndexed :: "('a \<Rightarrow> int \<Rightarrow> bool) \<Rightarrow> 'a list \<Rightarrow> int \<Rightarrow> 'a list" where
  "filterIndexed f [] i = []"
| "filterIndexed f (x # xs) i =
     (if f x i then x # filterIndexed f xs (i + 1) else filterIndexed f xs (i + 1))"

definition ids :: "MotifProps \<Rightarrow> idPair list" where
  "ids p =
     (let a = allocate 0 (map idOf (targets p))
      in map snd (filterIndexed (\<lambda>x i. refIndexOf a x = i) a 0))"

text \<open>\<open>asym_id_list.str(i).indexOf(val[1])\<close>: an \<open>undefined\<close> argument is searched as its string.\<close>

definition searchString :: "string option \<Rightarrow> string" where
  "searchString v = (case v of None \<Rightarrow> ''undefined'' | Some s \<Rightarrow> s)"

text \<open>
  The callback of \<open>ids.some\<close> at row \<open>i\<close>:
  \<^verbatim>\<open>val => !equals(oper_expression.str(i), val[0]) || asym_id_list.str(i).indexOf(val[1]) === -1\<close>
  Its outcome is a throw (\<open>Some (Inl e)\<close>), a value (\<open>Some (Inr b)\<close>), or no return at
  all (\<open>None\<close>, when parsing the operator expression does not end).
\<close>

definition mismatch :: "category \<Rightarrow> nat \<Rightarrow> idPair \<Rightarrow> (error + bool) option" where
  "mismatch c i val =
     (case str (oper_expression c) i of
        Inl e \<Rightarrow> Some (Inl e)
      | Inr expr \<Rightarrow>
          (case equals expr (fst val) of
             None \<Rightarrow> None
           | Some eq \<Rightarrow>
               if \<not> eq then Some (Inr True)
               else (case str (asym_id_list c) i of
                       Inl e \<Rightarrow> Some (Inl e)
                     | Inr asym_ids \<Rightarrow> Some (Inr (indexOf asym_ids (searchString (snd val)) = - 1)))))"

fun arraySome :: "('a \<Rightarrow> (error + bool) option) \<Rightarrow> 'a list \<Rightarrow> (error + bool) option" where
  "arraySome f [] = Some (Inr False)"
| "arraySome f (x # xs) =
     (case f x of
        None \<Rightarrow> None
      | Some (Inl e) \<Rightarrow> Some (Inl e)
      | Some (Inr b) \<Rightarrow> if b then Some (Inr True) else arraySome f xs)"

text \<open>
  The loop over the rows inside \<open>try\<close>: \<open>Some (Inr (Some a))\<close> is the \<open>return\<close> after
  \<open>Object.assign\<close>, \<open>Some (Inr None)\<close> is leaving the loop without a match,
  \<open>Some (Inl e)\<close> a throw, and \<open>None\<close> a callback that does not return.
\<close>

function scanRows :: "category \<Rightarrow> idPair list \<Rightarrow> nat \<Rightarrow> nat \<Rightarrow> (error + string option) option" where
  "scanRows c vs i il =
     (if i < il then
        (case arraySome (mismatch c i) vs of
           None \<Rightarrow> None
         | Some (Inl e) \<Rightarrow> Some (Inl e)
         | Some (Inr b) \<Rightarrow>
             if b then scanRows c vs (i + 1) il
             else (case str (assembly_id c) i of
                     Inl e \<Rightarrow> Some (Inl e)
                   | Inr a \<Rightarrow> Some (Inr (Some a))))
      else Some (Inr None))"
  by pat_completeness auto
termination
  by (relation "measure (\<lambda>(c, vs, i, il). il - i)") auto

declare scanRows.simps [simp del]

definition tryBlock :: "traj \<Rightarrow> idPair list \<Rightarrow> (error + string option) option" where
  "tryBlock t vs = (case t of Inl e \<Rightarrow> Some (Inl e) | Inr c \<Rightarrow> scanRows c vs 0 (rowCount c))"

definition assemblyKnown :: "MotifProps \<Rightarrow> bool" where
  "assemblyKnown p = (case assemblyId p of None \<Rightarrow> False | Some a \<Rightarrow> a \<noteq> [] \<and> a \<noteq> ''0'')"

text \<open>
  The function updates \<open>p\<close> in place and may write to the console: the model returns the
  props after the call and the list of values given to \<open>console.warn\<close>, or \<open>None\<close> when
  the call does not return.
\<close>

definition determineAssemblyId :: "traj \<Rightarrow> MotifProps \<Rightarrow> (MotifProps \<times> error list) option" where
  "determineAssemblyId t p =
     (if assemblyKnown p then Some (p, [])
      else (case tryBlock t (ids p) of
              None \<Rightarrow> None
            | Some (Inr (Some a)) \<Rightarrow> Some (p\<lparr>assemblyId := Some a\<rparr>, [])
            | Some (Inr None) \<Rightarrow> Some (p\<lparr>assemblyId := Some ''1''\<rparr>, [])
            | Some (Inl e) \<Rightarrow> Some (p\<lparr>assemblyId := Some ''1''\<rparr>, [e])))"

text \<open>A metadata table given by its rows, every lookup of which succeeds.\<close>

record row =
  row_assembly_id :: string
  row_oper_expression :: string
  row_asym_id_list :: string

definition column :: "(row \<Rightarrow> string) \<Rightarrow> row list \<Rightarrow> field" where
  "column f rows i = (if i < length rows then Inr (f (rows ! i)) else Inl TypeError)"

definition tableOf :: "row list \<Rightarrow> category" where
  "tableOf rows =
     \<lparr>rowCount = length rows,
      assembly_id = Some (column row_assembly_id rows),
      oper_expression = Some (column row_oper_expression rows),
      asym_id_list = Some (column row_asym_id_list rows)\<rparr>"

text \<open>
  What the callback decides about a row with these two cells, negated; \<open>None\<close> when
  it does not return.
\<close>

definition pairMatches :: "string \<Rightarrow> string \<Rightarrow> idPair \<Rightarrow> bool option" where
  "pairMatches expr asym_ids val =
     (case equals expr (fst val) of
        None \<Rightarrow> None
      | Some eq \<Rightarrow> Some (eq \<and> indexOf asym_ids (searchString (snd val)) \<noteq> - 1))"

text \<open>
  Whether every requested pair matches the row, asked pair by pair as \<open>ids.some\<close> does:
  the first pair that does not match settles it.
\<close>

fun allPairs :: "(idPair \<Rightarrow> bool option) \<Rightarrow> idPair list \<Rightarrow> bool option" where
  "allPairs f [] = Some True"
| "allPairs f (v # vs) =
     (case f v of None \<Rightarrow> None | Some b \<Rightarrow> if b then allPairs f vs else Some False)"

definition rowMatches :: "idPair list \<Rightarrow> row \<Rightarrow> bool option" where
  "rowMatches vs r = allPairs (pairMatches (row_oper_expression r) (row_asym_id_list r)) vs"

text \<open>
  Row \<open>j\<close> of the category is the first row that no requested pair mismatches, and its
  assembly id reads as \<open>a\<close>.
\<close>

definition firstMatchAt :: "category \<Rightarrow> idPair list \<Rightarrow> nat \<Rightarrow> string \<Rightarrow> bool" where
  "firstMatchAt c vs j a =
     (j < rowCount c \<and>
      arraySome (mismatch c j) vs = Some (Inr False) \<and>
      list_all (\<lambda>k. arraySome (mismatch c k) vs = Some (Inr True)) [0..<j] \<and>
      str (assembly_id c) j = Inr a)"

text \<open>Every operator expression the category gives can be parsed to the end.\<close>

definition operatorsParse :: "category \<Rightarrow> bool" where
  "operatorsParse c =
     (\<forall>i < rowCount c. \<forall>expr. str (oper_expression c) i = Inr expr \<longrightarrow> parseOperatorList expr \<noteq> None)"

section \<open>Motif search submission (strucmotif UI: submitSearch)\<close>

text \<open>
  Of an entry of the selection history \<open>submitSearch\<close> reads the entry id of its
  structure (\<open>structure.model.entry\<close>) and, at the first element of its loci, the chain
  label and the residue number the host's \<open>StructureProperties\<close> return. The \<open>Set\<close>
  \<open>pdbId\<close> is a list without duplicates in insertion order. The model returns the query
  handed to \<open>window.open\<close> (\<open>None\<close> when the function returns before) and the console
  warnings; of the query's constant fields only two are kept.
\<close>

definition MAX_MOTIF_SIZE :: nat where
  "MAX_MOTIF_SIZE = 10"

record locus =
  entry :: string
  chain_label_asym_id :: string
  residue_label_seq_id :: int

record residue_id =
  res_label_asym_id :: string
  res_struct_oper_id :: "string option"
  res_label_seq_id :: int

record motifQuery =
  data :: "string option"
  residue_ids :: "residue_id list"
  score_cutoff :: int
  return_type :: string

definition setAdd :: "string list \<Rightarrow> string \<Rightarrow> string list" where
  "setAdd s x = (if x \<in> set s then s else s @ [x])"

definition residueOf :: "locus \<Rightarrow> residue_id" where
  "residueOf l =
     \<lparr>res_label_asym_id = chain_label_asym_id l, res_struct_oper_id = Some ''1'',
      res_label_seq_id = residue_label_seq_id l\<rparr>"

function submitLoop :: "locus list \<Rightarrow> nat \<Rightarrow> string list \<Rightarrow> residue_id list \<Rightarrow> string list \<times> residue_id list" where
  "submitLoop loci i pdbId residueIds =
     (if i < min MAX_MOTIF_SIZE (length loci)
      then submitLoop loci (i + 1) (setAdd pdbId (entry (loci ! i))) (residueIds @ [residueOf (loci ! i)])
      else (pdbId, residueIds))"
  by pat_completeness auto
termination
  by (relation "measure (\<lambda>(loci, i, pdbId, residueIds). min MAX_MOTIF_SIZE (length loci) - i)") auto

declare submitLoop.simps [simp del]

definition submitSearch :: "locus list \<Rightarrow> motifQuery option \<times> string list" where
  "submitSearch loci =
     (case submitLoop loci 0 [] [] of (pdbId, residueIds) \<Rightarrow>
        if length pdbId > 1 then (None, [''motifs can only be extracted from a single model''])
        else if length residueIds > MAX_MOTIF_SIZE then (None, [''maximum motif size is 10 residues''])
        else (Some \<lparr>data = (case pdbId of [] \<Rightarrow> None | x # _ \<Rightarrow> Some x),
                     residue_ids = residueIds, score_cutoff = 5, return_type = ''assembly''\<rparr>, []))"

definition entryIds :: "locus list \<Rightarrow> string list" where
  "entryIds loci = fst (submitLoop loci 0 [] [])"

section \<open>Example data\<close>

definition exampleTable :: "row list" where
  "exampleTable =
     [\<lparr>row_assembly_id = ''1'', row_oper_expression = ''(1)'', row_asym_id_list = ''A,B''\<rparr>,
      \<lparr>row_assembly_id = ''2'', row_oper_expression = ''(1-2)'', row_asym_id_list = ''A''\<rparr>]"

definition exampleRequest :: "string option \<Rightarrow> MotifProps" where
  "exampleRequest a =
     \<lparr>label = None,
      targets = [\<lparr>struct_oper_id = Some ''1'', label_asym_id = Some ''A''\<rparr>],
      color = None, assemblyId = a, modelIndex = None\<rparr>"

definition unendingTable :: "row list" where
  "unendingTable =
     [\<lparr>row_assembly_id = ''1'', row_oper_expression = ''(9007199254740991-9007199254740992)'',
       row_asym_id_list = ''A''\<rparr>]"

definition laterMatchTable :: "row list" where
  "laterMatchTable =
     [\<lparr>row_assembly_id = ''7'', row_oper_expression = ''(2)'', row_asym_id_list = ''A''\<rparr>,
      \<lparr>row_assembly_id = ''2'', row_oper_expression = ''(1-2)'', row_asym_id_list = ''A''\<rparr>,
      \<lparr>row_assembly_id = ''3'', row_oper_expression = ''(1)'', row_asym_id_list = ''A,B''\<rparr>]"

definition substringTable :: "row list" where
  "substringTable =
     [\<lparr>row_assembly_id = ''7'', row_oper_expression = ''(1)'', row_asym_id_list = ''AA,B''\<rparr>]"

definition undefinedField :: category where
  "undefinedField =
     \<lparr>rowCount = 1, assembly_id = Some (\<lambda>i. Inr ''5''), oper_expression = None,
      asym_id_list = Some (\<lambda>i. Inr ''A'')\<rparr>"

definition throwingField :: category where
  "throwingField =
     \<lparr>rowCount = 2, assembly_id = Some (\<lambda>i. Inr ''5''),
      oper_expression = Some (\<lambda>i. if i = 0 then Inr ''(2)'' else Inr ''(1)''),
      asym_id_list = Some (\<lambda>i. if i = 0 then Inr ''A'' else Inl (HostError ''str''))\<rparr>"

definition noMatchTable :: "row list" where
  "noMatchTable =
     [\<lparr>row_assembly_id = ''7'', row_oper_expression = ''(2)'', row_asym_id_list = ''A''\<rparr>,
      \<lparr>row_assembly_id = ''8'', row_oper_expression = ''(1)'', row_asym_id_list = ''B,C''\<rparr>]"

definition threeLoci :: "locus list" where
  "threeLoci =
     [\<lparr>entry = ''1ABC'', chain_label_asym_id = ''A'', residue_label_seq_id = 10\<rparr>,
      \<lparr>entry = ''1ABC'', chain_label_asym_id = ''A'', residue_label_seq_id = 42\<rparr>,
      \<lparr>entry = ''1ABC'', chain_label_asym_id = ''B'', residue_label_seq_id = 7\<rparr>]"

definition mixedLoci :: "locus list" where
  "mixedLoci =
     [\<lparr>entry = ''1ABC'', chain_label_asym_id = ''A'', residue_label_seq_id = 10\<rparr>,
      \<lparr>entry = ''1ABC'', chain_label_asym_id = ''A'', residue_label_seq_id = 42\<rparr>,
      \<lparr>entry = ''2XYZ'', chain_label_asym_id = ''B'', residue_label_seq_id = 7\<rparr>]"

definition elevenLoci :: "locus list" where
  "elevenLoci =
     map (\<lambda>n. \<lparr>entry = ''1ABC'', chain_label_asym_id = ''A'', residue_label_seq_id = n\<rparr>)
       [1, 2, 3, 4, 5, 6, 7, 8, 9, 10, 11]"

definition duplicateRequest :: MotifProps where
  "duplicateRequest =
     \<lparr>label = None,
      targets = [\<lparr>struct_oper_id = Some ''1'', label_asym_id = Some ''A''\<rparr>,
                 \<lparr>struct_oper_id = None, label_asym_id = Some ''A''\<rparr>,
                 \<lparr>struct_oper_id = Some ''1'', label_asym_id = Some ''A''\<rparr>],
      color = None, assemblyId = None, modelIndex = None\<rparr>"

section \<open>Properties of numbers\<close>





text \<open>At \<open>2 ^ 53\<close> the increment has no effect: \<open>2 ^ 53 + 1\<close> is no double.\<close>

lemma jsInc_two53: "jsInc 9007199254740992 = 9007199254740992"
  by code_simp

lemma jsInc_below_two53: "jsInc 9007199254740991 = 9007199254740992"
  by code_simp

lemma dropBits_shift:
  "2 ^ 52 \<le> q \<Longrightarrow> q < 2 ^ 53 \<Longrightarrow> 0 \<le> r \<Longrightarrow> r < 2 ^ e \<Longrightarrow> dropBits (q * 2 ^ e + r) = e"
proof (induction e arbitrary: r)
  case 0
  then show ?case
    by (simp add: dropBits.simps [of "q + r"] dropBits.simps [of q])
next
  case (Suc e)
  have big: "\<not> q * 2 ^ Suc e + r < 2 ^ 53"
  proof -
    have "(2 :: int) ^ 53 = 2 ^ 52 * 2" by simp
    also have "\<dots> \<le> q * 2" using Suc.prems(1) by simp
    also have "\<dots> \<le> q * 2 ^ Suc e"
      using Suc.prems(1) by (simp add: mult_left_mono)
    finally show ?thesis using Suc.prems(3) by simp
  qed
  have half: "(q * 2 ^ Suc e + r) div 2 = q * 2 ^ e + r div 2"
    by simp
  have "dropBits (q * 2 ^ e + r div 2) = e"
    using Suc.prems by (intro Suc.IH) auto
  then show ?case
    using big by (simp add: dropBits.simps [of "q * 2 ^ Suc e + r"] half del: power_Suc)
qed

text \<open>
  A double of absolute value \<open>2 ^ 54\<close> or more is \<open>q * 2 ^ e\<close> with a mantissa
  \<open>2 ^ 52 \<le> q < 2 ^ 53\<close> and \<open>e \<ge> 2\<close>: there the increment has no effect.
\<close>

lemma jsInc_large:
  assumes "2 ^ 52 \<le> q" and "q < 2 ^ 53" and "2 \<le> e" and "q * 2 ^ e < jsInfinity"
  shows "jsInc (q * 2 ^ e) = q * 2 ^ e"
proof -
  have four: "(4 :: int) \<le> 2 ^ e"
    using power_increasing [of 2 e "2 :: int"] assms(3) by simp
  have pos: "0 \<le> q * 2 ^ e + 1"
    using assms(1) by simp
  have e: "dropBits (q * 2 ^ e + 1) = e"
    using assms(1,2) four by (intro dropBits_shift) simp_all
  have d: "(q * 2 ^ e + 1) div 2 ^ e = q"
    using assms(3) by simp
  have m: "(q * 2 ^ e + 1) mod 2 ^ e = 1"
    using assms(3) by simp
  have "roundDouble (q * 2 ^ e + 1) = q * 2 ^ e"
    unfolding roundDouble_def Let_def abs_of_nonneg [OF pos] e d m
    using four assms(4) pos by simp
  then show ?thesis
    by (simp add: jsInc_def)
qed

section \<open>Properties of range expansion\<close>







section \<open>Properties of the operator-expression parser\<close>



lemma rangeTokens_stall:
  assumes "i \<le> to" and "jsInc i = i"
  shows "rangeTokens i to grp = None"
proof (cases "rangeTokens i to grp")
  case None
  then show ?thesis .
next
  case (Some y)
  have "\<not> (i \<le> to \<and> jsInc i = i)"
    by (rule rangeTokens.raw_induct
        [where P = "\<lambda>i to grp y. \<not> (i \<le> to \<and> jsInc i = i)", OF _ Some])
      (auto split: if_splits)
  then show ?thesis
    using assms by simp
qed

text \<open>
  From \<open>2 ^ 54\<close> on the loop does not return once it is entered, so that no result
  holds the text of such a number.
\<close>

lemma rangeTokens_large:
  assumes "2 ^ 52 \<le> q" and "q < 2 ^ 53" and "2 \<le> e" and "q * 2 ^ e < jsInfinity"
    and "q * 2 ^ e \<le> to"
  shows "rangeTokens (q * 2 ^ e) to grp = None"
  using assms(5) jsInc_large [OF assms(1-4)] by (rule rangeTokens_stall)













text \<open>A range that reaches \<open>2 ^ 53\<close>: the loop stays at \<open>9007199254740992\<close> for ever.\<close>

lemma parseOperatorList_unending:
  "parseOperatorList ''(9007199254740991-9007199254740992)'' = None"
proof -
  let ?e = "''9007199254740991-9007199254740992''"
  have g: "oeGroups ''(9007199254740991-9007199254740992)'' = [?e]"
    by code_simp
  have sp: "split_on CHR '','' ?e = [?e]"
    by code_simp
  have b: "0 < indexOf ?e ''-'' \<and> rangeFrom ?e = Some 9007199254740991 \<and>
      rangeTo ?e = Some 9007199254740992"
    by code_simp
  have "rangeTokens 9007199254740991 9007199254740992 [] =
      rangeTokens 9007199254740992 9007199254740992 [toString 9007199254740991]"
    by (subst rangeTokens.simps) (simp add: jsInc_below_two53)
  also have "\<dots> = None"
    by (rule rangeTokens_stall) (simp_all add: jsInc_two53)
  finally have "parseElement [] ?e = None"
    using b by (simp add: parseElement_def)
  then have "parseGroup ?e = None"
    by (simp add: parseGroup_def sp)
  then show ?thesis
    by (simp add: parseOperatorList_def g)
qed




section \<open>Properties of matching\<close>

lemma arrayIndexOfFrom_lower: "0 \<le> k \<Longrightarrow> x \<in> set ys \<Longrightarrow> k \<le> arrayIndexOfFrom ys x k"
proof (induction ys arbitrary: k)
  case Nil
  then show ?case by simp
next
  case (Cons y ys)
  show ?case
  proof (cases "y = x")
    case True
    then show ?thesis by simp
  next
    case False
    then have "k + 1 \<le> arrayIndexOfFrom ys x (k + 1)"
      using Cons.IH [of "k + 1"] Cons.prems by simp
    then show ?thesis
      using False by simp
  qed
qed

lemma arrayIndexOfFrom_miss: "x \<notin> set ys \<Longrightarrow> arrayIndexOfFrom ys x k = - 1"
  by (induction ys arbitrary: k) auto

lemma arrayIndexOf_found: "arrayIndexOf ys x \<noteq> - 1 \<longleftrightarrow> x \<in> set ys"
proof (cases "x \<in> set ys")
  case True
  then have "0 \<le> arrayIndexOfFrom ys x 0"
    using arrayIndexOfFrom_lower [of 0 x ys] by simp
  then show ?thesis
    using True by (simp add: arrayIndexOf_def)
next
  case False
  then show ?thesis
    using arrayIndexOfFrom_miss [of x ys 0] by (simp add: arrayIndexOf_def)
qed

lemma equalsLoop_count:
  "equalsLoop lst spl i il m = m + length (filter (\<lambda>j. spl ! j \<in> set (lst ! j)) [i..<il])"
proof (induction lst spl i il m rule: equalsLoop.induct)
  case (1 lst spl i il matches)
  show ?case
  proof (cases "i < il")
    case True
    then show ?thesis
      using "1.IH" [OF True]
      by (simp add: equalsLoop.simps [of lst spl i] upt_rec [of i il] arrayIndexOf_found)
  next
    case False
    then show ?thesis
      by (simp add: equalsLoop.simps [of lst spl i])
  qed
qed

lemma filter_count_full:
  "length (filter P [0..<min a b]) = b \<longleftrightarrow> b \<le> a \<and> (\<forall>j<b. P j)"
proof
  assume eq: "length (filter P [0..<min a b]) = b"
  have le: "length (filter P [0..<min a b]) \<le> min a b"
    using length_filter_le [of P "[0..<min a b]"] by simp
  with eq have ba: "b \<le> a" by simp
  then have "length (filter P [0..<b]) = length [0..<b]"
    using eq by (simp add: min_absorb2)
  then have "filter (\<lambda>j. \<not> P j) [0..<b] = []"
    using sum_length_filter_compl [of P "[0..<b]"] by simp
  then have "\<forall>j<b. P j"
    by (simp add: filter_empty_conv)
  with ba show "b \<le> a \<and> (\<forall>j<b. P j)" by simp
next
  assume h: "b \<le> a \<and> (\<forall>j<b. P j)"
  then have "filter P [0..<b] = [0..<b]"
    by (simp add: filter_id_conv)
  with h show "length (filter P [0..<min a b]) = b"
    by (simp add: min_absorb2)
qed

lemma startsWith_iff: "startsWith s n \<longleftrightarrow> (\<exists>post. s = n @ post)"
  by (induction s n rule: startsWith.induct) auto

lemma indexOfFrom_lower: "0 \<le> k \<Longrightarrow> (\<exists>pre post. hay = pre @ needle @ post) \<Longrightarrow> k \<le> indexOfFrom hay needle k"
proof (induction hay arbitrary: k)
  case Nil
  then show ?case by auto
next
  case (Cons c s)
  show ?case
  proof (cases "startsWith (c # s) needle")
    case True
    then show ?thesis by simp
  next
    case False
    from Cons.prems obtain pre post where eq: "c # s = pre @ needle @ post" by blast
    have "pre \<noteq> []"
      using False eq by (auto simp: startsWith_iff)
    then obtain pre' where "pre = c # pre'"
      using eq by (cases pre) auto
    then have "\<exists>pre post. s = pre @ needle @ post"
      using eq by auto
    then have "k + 1 \<le> indexOfFrom s needle (k + 1)"
      using Cons.IH [of "k + 1"] Cons.prems(1) by simp
    then show ?thesis
      using False by simp
  qed
qed

lemma indexOfFrom_miss: "\<not> (\<exists>pre post. hay = pre @ needle @ post) \<Longrightarrow> indexOfFrom hay needle k = - 1"
proof (induction hay arbitrary: k)
  case Nil
  then show ?case by auto
next
  case (Cons c s)
  have ns: "\<not> startsWith (c # s) needle"
  proof
    assume "startsWith (c # s) needle"
    then obtain post where "c # s = [] @ needle @ post"
      by (auto simp: startsWith_iff)
    then show False using Cons.prems by blast
  qed
  have "\<not> (\<exists>pre post. s = pre @ needle @ post)"
  proof
    assume "\<exists>pre post. s = pre @ needle @ post"
    then obtain pre post where "s = pre @ needle @ post" by blast
    then have "c # s = (c # pre) @ needle @ post" by simp
    then show False using Cons.prems by blast
  qed
  then show ?case
    using ns Cons.IH by simp
qed

lemma indexOf_found: "indexOf hay needle \<noteq> - 1 \<longleftrightarrow> (\<exists>pre post. hay = pre @ needle @ post)"
proof (cases "\<exists>pre post. hay = pre @ needle @ post")
  case True
  then have "0 \<le> indexOfFrom hay needle 0"
    using indexOfFrom_lower [of 0 hay needle] by simp
  then show ?thesis
    using True by (simp add: indexOf_def)
next
  case False
  then show ?thesis
    using indexOfFrom_miss [of hay needle 0] by (simp add: indexOf_def)
qed

lemma equals_parsed:
  "equals expr val =
     map_option (\<lambda>lst. length (split_on CHR ''x'' val) \<le> length lst \<and>
        (\<forall>j < length (split_on CHR ''x'' val). split_on CHR ''x'' val ! j \<in> set (lst ! j)))
       (parseOperatorList expr)"
proof (cases "parseOperatorList expr")
  case None
  then show ?thesis
    by (simp add: equals_def)
next
  case (Some lst)
  then show ?thesis
    unfolding equals_def Let_def equalsLoop_count
    using filter_count_full [of "\<lambda>j. split_on CHR ''x'' val ! j \<in> set (lst ! j)"
        "length lst" "length (split_on CHR ''x'' val)"]
    by simp
qed

lemma pairMatches_parsed:
  "pairMatches expr asym_ids (opExpr, chain) =
     map_option (\<lambda>lst. (\<exists>pre post. asym_ids = pre @ searchString chain @ post) \<and>
        length (split_on CHR ''x'' opExpr) \<le> length lst \<and>
        (\<forall>j < length (split_on CHR ''x'' opExpr). split_on CHR ''x'' opExpr ! j \<in> set (lst ! j)))
       (parseOperatorList expr)"
proof (cases "parseOperatorList expr")
  case None
  then show ?thesis
    by (simp add: pairMatches_def equals_parsed)
next
  case (Some lst)
  then show ?thesis
    by (auto simp: pairMatches_def equals_parsed indexOf_found)
qed

lemma pairMatches_None: "pairMatches expr asym_ids val = None \<longleftrightarrow> parseOperatorList expr = None"
  by (cases val) (simp add: pairMatches_parsed)

lemma allPairs_True: "allPairs f vs = Some True \<longleftrightarrow> (\<forall>v \<in> set vs. f v = Some True)"
  by (induction vs) (auto split: option.splits)

lemma allPairs_total:
  "\<forall>v \<in> set vs. f v \<noteq> None \<Longrightarrow> allPairs f vs = Some (\<forall>v \<in> set vs. f v = Some True)"
  by (induction vs) (auto split: option.splits)

lemma rowMatches_parsed:
  assumes "parseOperatorList (row_oper_expression r) \<noteq> None"
  shows "rowMatches vs r =
    Some (\<forall>val \<in> set vs. pairMatches (row_oper_expression r) (row_asym_id_list r) val = Some True)"
  unfolding rowMatches_def
  using assms by (intro allPairs_total) (simp add: pairMatches_None)

lemma mismatch_tableOf:
  "i < length rows \<Longrightarrow>
   mismatch (tableOf rows) i val =
     map_option (\<lambda>b. Inr (\<not> b))
       (pairMatches (row_oper_expression (rows ! i)) (row_asym_id_list (rows ! i)) val)"
  by (cases "equals (row_oper_expression (rows ! i)) (fst val)")
    (auto simp: mismatch_def tableOf_def str_def column_def pairMatches_def)

lemma arraySome_allPairs:
  "\<forall>v. f v = map_option (\<lambda>b. Inr (\<not> b)) (g v) \<Longrightarrow>
   arraySome f vs = map_option (\<lambda>b. Inr (\<not> b)) (allPairs g vs)"
proof (induction vs)
  case Nil
  then show ?case by simp
next
  case (Cons v vs)
  have fv: "f v = map_option (\<lambda>b. Inr (\<not> b)) (g v)"
    using Cons.prems by blast
  have ih: "arraySome f vs = map_option (\<lambda>b. Inr (\<not> b)) (allPairs g vs)"
    using Cons.prems by (rule Cons.IH)
  show ?case
    by (cases "g v") (simp_all add: fv ih)
qed

lemma arraySome_tableOf:
  assumes "i < length rows"
  shows "arraySome (mismatch (tableOf rows) i) vs =
    map_option (\<lambda>b. Inr (\<not> b)) (rowMatches vs (rows ! i))"
  unfolding rowMatches_def
  using assms by (intro arraySome_allPairs) (simp add: mismatch_tableOf)

lemma str_assembly_id_tableOf:
  "i < length rows \<Longrightarrow> str (assembly_id (tableOf rows)) i = Inr (row_assembly_id (rows ! i))"
  by (simp add: tableOf_def str_def column_def)

section \<open>Properties of assembly-id inference\<close>

text \<open>Rows that mismatch are passed over.\<close>

lemma scanRows_skip:
  "i \<le> j \<Longrightarrow> j \<le> il \<Longrightarrow>
   (\<forall>k. i \<le> k \<and> k < j \<longrightarrow> arraySome (mismatch c k) vs = Some (Inr True)) \<Longrightarrow>
   scanRows c vs i il = scanRows c vs j il"
proof (induction "j - i" arbitrary: i)
  case 0
  then show ?case by simp
next
  case (Suc n)
  then have lt: "i < j" "i < il" by simp_all
  then have "arraySome (mismatch c i) vs = Some (Inr True)"
    using Suc.prems(3) by simp
  then have "scanRows c vs i il = scanRows c vs (i + 1) il"
    using lt by (simp add: scanRows.simps [of c vs i])
  also have "\<dots> = scanRows c vs j il"
    using Suc.hyps(1) [of "i + 1"] Suc.hyps(2) Suc.prems lt by simp
  finally show ?case .
qed

text \<open>A throw at the first row that is not passed over leaves the loop.\<close>

lemma scanRows_throw:
  assumes "j < il"
    and "\<forall>k<j. arraySome (mismatch c k) vs = Some (Inr True)"
    and "arraySome (mismatch c j) vs = Some (Inl e) \<or>
         arraySome (mismatch c j) vs = Some (Inr False) \<and> str (assembly_id c) j = Inl e"
  shows "scanRows c vs 0 il = Some (Inl e)"
proof -
  have "scanRows c vs 0 il = scanRows c vs j il"
    using assms(1,2) by (intro scanRows_skip) simp_all
  also have "\<dots> = Some (Inl e)"
    using assms(1,3) by (auto simp: scanRows.simps [of c vs j])
  finally show ?thesis .
qed

lemma scanRows_match:
  assumes "j < il"
    and "\<forall>k<j. arraySome (mismatch c k) vs = Some (Inr True)"
    and "arraySome (mismatch c j) vs = Some (Inr False)"
    and "str (assembly_id c) j = Inr a"
  shows "scanRows c vs 0 il = Some (Inr (Some a))"
proof -
  have "scanRows c vs 0 il = scanRows c vs j il"
    using assms(1,2) by (intro scanRows_skip) simp_all
  also have "\<dots> = Some (Inr (Some a))"
    using assms(1,3,4) by (simp add: scanRows.simps [of c vs j])
  finally show ?thesis .
qed

lemma scanRows_none:
  assumes "\<forall>k<il. arraySome (mismatch c k) vs = Some (Inr True)"
  shows "scanRows c vs 0 il = Some (Inr None)"
proof -
  have "scanRows c vs 0 il = scanRows c vs il il"
    using assms by (intro scanRows_skip) simp_all
  also have "\<dots> = Some (Inr None)"
    by (simp add: scanRows.simps [of c vs il])
  finally show ?thesis .
qed

text \<open>When the row loop returns an assembly id, it is that of the first row no pair mismatches.\<close>

lemma scanRows_Some:
  "scanRows c vs i il = Some (Inr (Some a)) \<Longrightarrow>
   \<exists>j. i \<le> j \<and> j < il \<and> arraySome (mismatch c j) vs = Some (Inr False) \<and>
       (\<forall>k. i \<le> k \<and> k < j \<longrightarrow> arraySome (mismatch c k) vs = Some (Inr True)) \<and>
       str (assembly_id c) j = Inr a"
proof (induction c vs i il rule: scanRows.induct)
  case (1 c vs i il)
  from "1.prems" have lt: "i < il"
    by (simp add: scanRows.simps [of c vs i] split: if_splits)
  from "1.prems" lt obtain b where b: "arraySome (mismatch c i) vs = Some (Inr b)"
    by (auto simp: scanRows.simps [of c vs i] split: option.splits sum.splits)
  show ?case
  proof (cases b)
    case True
    then have "scanRows c vs (i + 1) il = Some (Inr (Some a))"
      using "1.prems" lt b by (simp add: scanRows.simps [of c vs i])
    then obtain j where j: "i + 1 \<le> j" "j < il" "arraySome (mismatch c j) vs = Some (Inr False)"
      "\<forall>k. i + 1 \<le> k \<and> k < j \<longrightarrow> arraySome (mismatch c k) vs = Some (Inr True)"
      "str (assembly_id c) j = Inr a"
      using "1.IH" [OF lt b refl True] by blast
    have "\<forall>k. i \<le> k \<and> k < j \<longrightarrow> arraySome (mismatch c k) vs = Some (Inr True)"
    proof (intro allI impI)
      fix k assume k: "i \<le> k \<and> k < j"
      show "arraySome (mismatch c k) vs = Some (Inr True)"
      proof (cases "k = i")
        case True
        then show ?thesis using b \<open>b\<close> by simp
      next
        case False
        then show ?thesis using k j(4) by simp
      qed
    qed
    then show ?thesis
      using j by (intro exI [of _ j]) simp
  next
    case False
    then have "str (assembly_id c) i = Inr a"
      using "1.prems" lt b by (simp add: scanRows.simps [of c vs i] split: sum.splits)
    then show ?thesis
      using lt b False by (intro exI [of _ i]) auto
  qed
qed

text \<open>The call returns when every operator expression of the category can be parsed.\<close>

lemma mismatch_returns:
  assumes "\<forall>expr. str (oper_expression c) i = Inr expr \<longrightarrow> parseOperatorList expr \<noteq> None"
  shows "mismatch c i val \<noteq> None"
proof (cases "str (oper_expression c) i")
  case (Inl e)
  then show ?thesis
    by (simp add: mismatch_def)
next
  case (Inr expr)
  then obtain lst where "parseOperatorList expr = Some lst"
    using assms by auto
  then show ?thesis
    using Inr by (auto simp: mismatch_def equals_parsed split: sum.splits)
qed

lemma arraySome_returns: "\<forall>v. f v \<noteq> None \<Longrightarrow> arraySome f vs \<noteq> None"
  by (induction vs) (auto split: option.splits sum.splits)

lemma scanRows_returns:
  "operatorsParse c \<Longrightarrow> il \<le> rowCount c \<Longrightarrow> scanRows c vs i il \<noteq> None"
proof (induction c vs i il rule: scanRows.induct)
  case (1 c vs i il)
  show ?case
  proof (cases "i < il")
    case False
    then show ?thesis
      by (simp add: scanRows.simps [of c vs i])
  next
    case True
    then have "i < rowCount c"
      using "1.prems" by simp
    then have "\<forall>expr. str (oper_expression c) i = Inr expr \<longrightarrow> parseOperatorList expr \<noteq> None"
      using "1.prems"(1) unfolding operatorsParse_def by blast
    then have "\<forall>val. mismatch c i val \<noteq> None"
      by (simp add: mismatch_returns)
    then have "arraySome (mismatch c i) vs \<noteq> None"
      by (rule arraySome_returns)
    then obtain r where r: "arraySome (mismatch c i) vs = Some r"
      by auto
    show ?thesis
    proof (cases r)
      case (Inl e)
      then show ?thesis
        using True r by (simp add: scanRows.simps [of c vs i])
    next
      case (Inr b)
      show ?thesis
      proof (cases b)
        case True
        then have "scanRows c vs (i + 1) il \<noteq> None"
          using "1.IH" [OF \<open>i < il\<close> r Inr True] "1.prems" by simp
        then show ?thesis
          using \<open>i < il\<close> r Inr True by (simp add: scanRows.simps [of c vs i])
      next
        case False
        then show ?thesis
          using \<open>i < il\<close> r Inr by (simp add: scanRows.simps [of c vs i] split: sum.splits)
      qed
    qed
  qed
qed

lemma tryBlock_tableOf:
  "tryBlock (Inr (tableOf rows)) vs = scanRows (tableOf rows) vs 0 (length rows)"
  by (simp add: tryBlock_def tableOf_def)

text \<open>
  C1. First match wins. For a request whose assembly id is unset (absent, empty or
  \<open>'0'\<close>) and a metadata table, the rows are scanned in table order and the request gets
  the assembly id of the first row that every requested pair matches: if row \<open>i\<close> matches
  and every earlier row is found not to match, the props end with that row's assembly
  id and nothing is written to the console.
\<close>

theorem first_match_wins:
  assumes "\<not> assemblyKnown p"
    and "i < length rows"
    and "rowMatches (ids p) (rows ! i) = Some True"
    and "\<forall>j<i. rowMatches (ids p) (rows ! j) = Some False"
  shows "determineAssemblyId (Inr (tableOf rows)) p =
    Some (p\<lparr>assemblyId := Some (row_assembly_id (rows ! i))\<rparr>, [])"
proof -
  have before: "\<forall>k<i. arraySome (mismatch (tableOf rows) k) (ids p) = Some (Inr True)"
    using assms(2,4) by (simp add: arraySome_tableOf)
  have at: "arraySome (mismatch (tableOf rows) i) (ids p) = Some (Inr False)"
    using assms(2,3) by (simp add: arraySome_tableOf)
  have "scanRows (tableOf rows) (ids p) 0 (length rows) =
      Some (Inr (Some (row_assembly_id (rows ! i))))"
    using assms(2) before at str_assembly_id_tableOf [OF assms(2)] by (rule scanRows_match)
  then show ?thesis
    using assms(1) by (simp add: determineAssemblyId_def tryBlock_tableOf)
qed

theorem first_match_wins_witness:
  "\<not> assemblyKnown (exampleRequest (Some ''0'')) \<and>
   rowMatches (ids (exampleRequest (Some ''0''))) (exampleTable ! 0) = Some True \<and>
   rowMatches (ids (exampleRequest (Some ''0''))) (exampleTable ! 1) = Some True \<and>
   determineAssemblyId (Inr (tableOf exampleTable)) (exampleRequest (Some ''0'')) =
     Some (exampleRequest (Some ''1''), []) \<and>
   rowMatches (ids (exampleRequest (Some ''0''))) (laterMatchTable ! 0) = Some False \<and>
   rowMatches (ids (exampleRequest (Some ''0''))) (laterMatchTable ! 1) = Some True \<and>
   rowMatches (ids (exampleRequest (Some ''0''))) (laterMatchTable ! 2) = Some True \<and>
   determineAssemblyId (Inr (tableOf laterMatchTable)) (exampleRequest (Some ''0'')) =
     Some (exampleRequest (Some ''2''), [])"
proof -
  have k: "\<not> assemblyKnown (exampleRequest (Some ''0''))"
    by code_simp
  have m0: "rowMatches (ids (exampleRequest (Some ''0''))) (exampleTable ! 0) = Some True"
    by code_simp
  have m1: "rowMatches (ids (exampleRequest (Some ''0''))) (exampleTable ! 1) = Some True"
    by code_simp
  have len: "0 < length exampleTable"
    by (simp add: exampleTable_def)
  have upd: "(exampleRequest (Some ''0''))\<lparr>assemblyId := Some (row_assembly_id (exampleTable ! 0))\<rparr>
      = exampleRequest (Some ''1'')"
    by (simp add: exampleRequest_def exampleTable_def)
  have l0: "rowMatches (ids (exampleRequest (Some ''0''))) (laterMatchTable ! 0) = Some False"
    by code_simp
  have l1: "rowMatches (ids (exampleRequest (Some ''0''))) (laterMatchTable ! 1) = Some True"
    by code_simp
  have l2: "rowMatches (ids (exampleRequest (Some ''0''))) (laterMatchTable ! 2) = Some True"
    by code_simp
  have len1: "1 < length laterMatchTable"
    by (simp add: laterMatchTable_def)
  have before: "\<forall>j<1. rowMatches (ids (exampleRequest (Some ''0''))) (laterMatchTable ! j) = Some False"
    using l0 by simp
  have upd1: "(exampleRequest (Some ''0''))\<lparr>assemblyId := Some (row_assembly_id (laterMatchTable ! 1))\<rparr>
      = exampleRequest (Some ''2'')"
    by (simp add: exampleRequest_def laterMatchTable_def)
  show ?thesis
    using first_match_wins [OF k len m0] first_match_wins [OF k len1 l1 before]
      k m0 m1 upd l0 l1 l2 upd1
    by simp
qed

text \<open>
  C2, as stated, fails on the code. The chain test is \<open>indexOf\<close> on the row's whole
  \<open>asym_id_list\<close> string: the row with chains \<open>AA,B\<close> matches the request for chain \<open>A\<close>
  and its assembly id is selected, although the comma-separated list \<open>[AA, B]\<close> does not
  contain \<open>A\<close>. The operator test counts the requested components only: the row
  \<open>(1)(2)\<close> matches the request \<open>1\<close>, whose token is not in the second axis, and the
  row \<open>(1)\<close> does not match the request \<open>1x2\<close>, although its only axis contains the
  token at its position.
\<close>

theorem row_matching_counterexample:
  "mismatch (tableOf substringTable) 0 (''1'', Some ''A'') = Some (Inr False) \<and>
   ''A'' \<notin> set (split_on CHR '','' ''AA,B'') \<and>
   determineAssemblyId (Inr (tableOf substringTable)) (exampleRequest None) =
     Some (exampleRequest (Some ''7''), []) \<and>
   equals ''(1)(2)'' ''1'' = Some True \<and> parseOperatorList ''(1)(2)'' = Some [[''1''], [''2'']] \<and>
   equals ''(1)'' ''1x2'' = Some False \<and> parseOperatorList ''(1)'' = Some [[''1'']]"
  by code_simp

text \<open>
  C2, amended. A row matches a requested pair \<open>(opExpr, chain)\<close> exactly when (a) the
  requested chain (the text \<open>undefined\<close> when the target has none) occurs as a substring
  of the row's chain-label string, and (b) the requested operator coordinate, split at
  \<open>x\<close>, has no more components than the row's parsed operator expression has axes and
  every component is a token of the axis at its position. A row matches the request
  exactly when every requested pair matches; this is what the callback of \<open>ids.some\<close>
  computes on a table. (The test of a pair returns exactly when the row's operator
  expression can be parsed.)
\<close>

theorem row_matching_predicate:
  "pairMatches expr asym_ids (opExpr, chain) =
     map_option (\<lambda>lst. (\<exists>pre post. asym_ids = pre @ searchString chain @ post) \<and>
        length (split_on CHR ''x'' opExpr) \<le> length lst \<and>
        (\<forall>j < length (split_on CHR ''x'' opExpr). split_on CHR ''x'' opExpr ! j \<in> set (lst ! j)))
       (parseOperatorList expr) \<and>
   (rowMatches vs r = Some True \<longleftrightarrow>
      (\<forall>val \<in> set vs. pairMatches (row_oper_expression r) (row_asym_id_list r) val = Some True)) \<and>
   (parseOperatorList (row_oper_expression r) \<noteq> None \<longrightarrow>
      rowMatches vs r =
        Some (\<forall>val \<in> set vs. pairMatches (row_oper_expression r) (row_asym_id_list r) val = Some True)) \<and>
   (i < length rows \<longrightarrow>
      mismatch (tableOf rows) i val =
        map_option (\<lambda>b. Inr (\<not> b))
          (pairMatches (row_oper_expression (rows ! i)) (row_asym_id_list (rows ! i)) val) \<and>
      arraySome (mismatch (tableOf rows) i) vs =
        map_option (\<lambda>b. Inr (\<not> b)) (rowMatches vs (rows ! i)))"
proof -
  have b: "rowMatches vs r = Some True \<longleftrightarrow>
      (\<forall>val \<in> set vs. pairMatches (row_oper_expression r) (row_asym_id_list r) val = Some True)"
    by (simp add: rowMatches_def allPairs_True)
  show ?thesis
    using pairMatches_parsed [of expr asym_ids opExpr chain] b rowMatches_parsed [of r vs]
    by (simp add: mismatch_tableOf arraySome_tableOf)
qed

theorem row_matching_predicate_witness:
  "pairMatches ''(1)(2-3)'' ''AA,B'' (''1x3'', Some ''A'') = Some True \<and>
   split_on CHR ''x'' ''1x3'' = [''1'', ''3''] \<and>
   parseOperatorList ''(1)(2-3)'' = Some [[''1''], [''2'', ''3'']] \<and>
   (\<exists>pre post. ''AA,B'' = pre @ ''A'' @ post) \<and>
   pairMatches ''(1)'' ''AA,B'' (''1x3'', Some ''A'') = Some False \<and>
   mismatch (tableOf substringTable) 0 (''1x3'', Some ''A'') = Some (Inr True)"
proof -
  have m: "pairMatches ''(1)(2-3)'' ''AA,B'' (''1x3'', Some ''A'') = Some True"
    by code_simp
  have s: "split_on CHR ''x'' ''1x3'' = [''1'', ''3'']"
    by code_simp
  have l: "parseOperatorList ''(1)(2-3)'' = Some [[''1''], [''2'', ''3'']]"
    by code_simp
  have n: "pairMatches ''(1)'' ''AA,B'' (''1x3'', Some ''A'') = Some False"
    by code_simp
  have r: "(0 :: nat) < length substringTable"
    "row_oper_expression (substringTable ! 0) = ''(1)''"
    "row_asym_id_list (substringTable ! 0) = ''AA,B''"
    by (simp_all add: substringTable_def)
  have ex: "\<exists>pre post. ''AA,B'' = pre @ ''A'' @ post"
    using row_matching_predicate [of "''(1)(2-3)''" "''AA,B''" "''1x3''" "Some ''A''" "[]" undefined 0 "[]" undefined] m l
    by (simp add: searchString_def)
  have "mismatch (tableOf substringTable) 0 (''1x3'', Some ''A'') =
      map_option (\<lambda>b. Inr (\<not> b))
        (pairMatches (row_oper_expression (substringTable ! 0))
          (row_asym_id_list (substringTable ! 0)) (''1x3'', Some ''A''))"
    using r(1) row_matching_predicate [of "''(1)''" "''AA,B''" "''1x3''" "Some ''A''" "[]"
        "substringTable ! 0" 0 substringTable "(''1x3'', Some ''A'')"]
    by blast
  then have mm: "mismatch (tableOf substringTable) 0 (''1x3'', Some ''A'') = Some (Inr True)"
    by (simp add: r n)
  show ?thesis
    using m s l n ex mm by simp
qed

text \<open>
  C3. Assembly-id inference does not raise. With the assembly id unset: when the
  metadata accessor throws \<open>e\<close>, and when anything inside the \<open>try\<close> block throws \<open>e\<close>
  (a field lookup at a row the loop reaches, whatever the row), the call ends with
  assembly id \<open>'1'\<close> and \<open>e\<close> given to \<open>console.warn\<close>; when the loop ends without a match,
  and so when no row of a table matches, the assembly id is \<open>'1'\<close> and nothing is logged.
  A call has no other outcome than its result: every throwing operation is inside the
  \<open>try\<close> block.
\<close>

theorem inference_never_raises:
  assumes "\<not> assemblyKnown p"
  shows "determineAssemblyId (Inl e) p = Some (p\<lparr>assemblyId := Some ''1''\<rparr>, [e]) \<and>
    (tryBlock t (ids p) = Some (Inl e) \<longrightarrow>
       determineAssemblyId t p = Some (p\<lparr>assemblyId := Some ''1''\<rparr>, [e])) \<and>
    (j < rowCount c \<and> (\<forall>k<j. arraySome (mismatch c k) (ids p) = Some (Inr True)) \<and>
       (arraySome (mismatch c j) (ids p) = Some (Inl e) \<or>
        arraySome (mismatch c j) (ids p) = Some (Inr False) \<and> str (assembly_id c) j = Inl e) \<longrightarrow>
       determineAssemblyId (Inr c) p = Some (p\<lparr>assemblyId := Some ''1''\<rparr>, [e])) \<and>
    (tryBlock t (ids p) = Some (Inr None) \<longrightarrow>
       determineAssemblyId t p = Some (p\<lparr>assemblyId := Some ''1''\<rparr>, [])) \<and>
    ((\<forall>r \<in> set rows. rowMatches (ids p) r = Some False) \<longrightarrow>
       determineAssemblyId (Inr (tableOf rows)) p = Some (p\<lparr>assemblyId := Some ''1''\<rparr>, []))"
proof -
  have a: "determineAssemblyId (Inl e) p = Some (p\<lparr>assemblyId := Some ''1''\<rparr>, [e])"
    using assms by (simp add: determineAssemblyId_def tryBlock_def)
  have b: "tryBlock t (ids p) = Some (Inl e) \<longrightarrow>
      determineAssemblyId t p = Some (p\<lparr>assemblyId := Some ''1''\<rparr>, [e])"
    using assms by (simp add: determineAssemblyId_def)
  have c: "tryBlock t (ids p) = Some (Inr None) \<longrightarrow>
      determineAssemblyId t p = Some (p\<lparr>assemblyId := Some ''1''\<rparr>, [])"
    using assms by (simp add: determineAssemblyId_def)
  have d: "determineAssemblyId (Inr (tableOf rows)) p = Some (p\<lparr>assemblyId := Some ''1''\<rparr>, [])"
    if "\<forall>r \<in> set rows. rowMatches (ids p) r = Some False"
  proof -
    have "\<forall>k<length rows. arraySome (mismatch (tableOf rows) k) (ids p) = Some (Inr True)"
      using that by (simp add: arraySome_tableOf)
    then have "scanRows (tableOf rows) (ids p) 0 (length rows) = Some (Inr None)"
      by (rule scanRows_none)
    then show ?thesis
      using assms by (simp add: determineAssemblyId_def tryBlock_tableOf)
  qed
  have f: "determineAssemblyId (Inr c) p = Some (p\<lparr>assemblyId := Some ''1''\<rparr>, [e])"
    if "j < rowCount c" and "\<forall>k<j. arraySome (mismatch c k) (ids p) = Some (Inr True)"
      and "arraySome (mismatch c j) (ids p) = Some (Inl e) \<or>
        arraySome (mismatch c j) (ids p) = Some (Inr False) \<and> str (assembly_id c) j = Inl e"
  proof -
    have "tryBlock (Inr c) (ids p) = Some (Inl e)"
      using scanRows_throw [OF that] by (simp add: tryBlock_def)
    then show ?thesis
      using assms by (simp add: determineAssemblyId_def)
  qed
  show ?thesis
    using a b c d f by blast
qed

theorem inference_never_raises_witness:
  "\<not> assemblyKnown (exampleRequest None) \<and>
   determineAssemblyId (Inl TypeError) (exampleRequest None) =
     Some (exampleRequest (Some ''1''), [TypeError]) \<and>
   tryBlock (Inr undefinedField) (ids (exampleRequest None)) = Some (Inl TypeError) \<and>
   determineAssemblyId (Inr undefinedField) (exampleRequest None) =
     Some (exampleRequest (Some ''1''), [TypeError]) \<and>
   arraySome (mismatch throwingField 0) (ids (exampleRequest None)) = Some (Inr True) \<and>
   arraySome (mismatch throwingField 1) (ids (exampleRequest None)) = Some (Inl (HostError ''str'')) \<and>
   determineAssemblyId (Inr throwingField) (exampleRequest None) =
     Some (exampleRequest (Some ''1''), [HostError ''str'']) \<and>
   rowMatches (ids (exampleRequest (Some []))) (noMatchTable ! 0) = Some False \<and>
   rowMatches (ids (exampleRequest (Some []))) (noMatchTable ! 1) = Some False \<and>
   determineAssemblyId (Inr (tableOf noMatchTable)) (exampleRequest (Some [])) =
     Some (exampleRequest (Some ''1''), [])"
proof -
  have k: "\<not> assemblyKnown (exampleRequest None)"
    by code_simp
  have k2: "\<not> assemblyKnown (exampleRequest (Some []))"
    by code_simp
  have u: "tryBlock (Inr undefinedField) (ids (exampleRequest None)) = Some (Inl TypeError)"
    by code_simp
  have v0: "arraySome (mismatch throwingField 0) (ids (exampleRequest None)) = Some (Inr True)"
    by code_simp
  have v1: "arraySome (mismatch throwingField 1) (ids (exampleRequest None)) =
      Some (Inl (HostError ''str''))"
    by code_simp
  have v: "(1 :: nat) < rowCount throwingField \<and>
      (\<forall>k<1. arraySome (mismatch throwingField k) (ids (exampleRequest None)) = Some (Inr True))"
    using v0 by (simp add: throwingField_def)
  have n: "\<forall>r \<in> set noMatchTable. rowMatches (ids (exampleRequest (Some []))) r = Some False"
    by code_simp
  have n0: "rowMatches (ids (exampleRequest (Some []))) (noMatchTable ! 0) = Some False"
    "rowMatches (ids (exampleRequest (Some []))) (noMatchTable ! 1) = Some False"
    by code_simp+
  have upd: "(exampleRequest None)\<lparr>assemblyId := Some ''1''\<rparr> = exampleRequest (Some ''1'')"
    "(exampleRequest (Some []))\<lparr>assemblyId := Some ''1''\<rparr> = exampleRequest (Some ''1'')"
    by (simp_all add: exampleRequest_def)
  show ?thesis
    using k u v0 v1 v n n0 upd
      inference_never_raises [OF k, of TypeError "Inr undefinedField" 0 undefinedField "[]"]
      inference_never_raises [OF k, of "HostError ''str''" "Inl TypeError" 1 throwingField "[]"]
      inference_never_raises [OF k2, of TypeError "Inl TypeError" 0 undefinedField noMatchTable]
    by simp
qed

text \<open>
  C9. A supplied assembly id is kept. When \<open>assemblyId\<close> is a non-empty string other
  than \<open>'0'\<close>, the call returns the props unchanged, whatever the metadata is, and logs
  nothing: an accessor that would throw is not touched, and neither is an operator
  expression that could not be parsed to the end.
\<close>

theorem supplied_id_skips:
  assumes "assemblyId p = Some a" and "a \<noteq> []" and "a \<noteq> ''0''"
  shows "determineAssemblyId t p = Some (p, [])"
  using assms by (simp add: determineAssemblyId_def assemblyKnown_def)

theorem supplied_id_skips_witness:
  "assemblyId (exampleRequest (Some ''2'')) = Some ''2'' \<and> ''2'' \<noteq> [] \<and> ''2'' \<noteq> ''0'' \<and>
   determineAssemblyId (Inl (HostError ''accessor'')) (exampleRequest (Some ''2'')) =
     Some (exampleRequest (Some ''2''), []) \<and>
   determineAssemblyId (Inr (tableOf exampleTable)) (exampleRequest (Some ''2'')) =
     Some (exampleRequest (Some ''2''), []) \<and>
   determineAssemblyId (Inr (tableOf unendingTable)) (exampleRequest (Some ''2'')) =
     Some (exampleRequest (Some ''2''), [])"
proof -
  have a: "assemblyId (exampleRequest (Some ''2'')) = Some ''2''"
    by (simp add: exampleRequest_def)
  have b: "''2'' \<noteq> []" "''2'' \<noteq> ''0''"
    by simp_all
  show ?thesis
    using a b supplied_id_skips [OF a b, of "Inl (HostError ''accessor'')"]
      supplied_id_skips [OF a b, of "Inr (tableOf exampleTable)"]
      supplied_id_skips [OF a b, of "Inr (tableOf unendingTable)"]
    by simp
qed

lemma operatorsParse_tableOf:
  "\<forall>r \<in> set rows. parseOperatorList (row_oper_expression r) \<noteq> None \<Longrightarrow> operatorsParse (tableOf rows)"
  by (auto simp: operatorsParse_def tableOf_def str_def column_def split: if_splits)

lemma determineAssemblyId_returns:
  assumes "assemblyKnown p \<or> (\<exists>e. t = Inl e) \<or> (\<exists>c. t = Inr c \<and> operatorsParse c)"
  shows "determineAssemblyId t p \<noteq> None"
proof (cases "assemblyKnown p")
  case True
  then show ?thesis
    by (simp add: determineAssemblyId_def)
next
  case False
  have "tryBlock t (ids p) \<noteq> None"
  proof (cases t)
    case (Inl e)
    then show ?thesis
      by (simp add: tryBlock_def)
  next
    case (Inr c)
    then have "operatorsParse c"
      using assms False by auto
    then show ?thesis
      using Inr scanRows_returns [of c "rowCount c" "ids p" 0] by (simp add: tryBlock_def)
  qed
  then show ?thesis
    using False by (auto simp: determineAssemblyId_def split: option.splits sum.splits)
qed

text \<open>
  A table whose first operator expression has a range that reaches \<open>2 ^ 53\<close>: with the
  assembly id unset the call does not return.
\<close>

lemma determineAssemblyId_unending:
  "determineAssemblyId (Inr (tableOf unendingTable)) (exampleRequest None) = None"
proof -
  have i: "ids (exampleRequest None) = [(''1'', Some ''A'')]"
    by code_simp
  have k: "\<not> assemblyKnown (exampleRequest None)"
    by code_simp
  have "equals ''(9007199254740991-9007199254740992)'' ''1'' = None"
    by (simp add: equals_def parseOperatorList_unending)
  then have "mismatch (tableOf unendingTable) 0 (''1'', Some ''A'') = None"
    by (simp add: mismatch_def tableOf_def unendingTable_def str_def column_def)
  then have "arraySome (mismatch (tableOf unendingTable) 0) [(''1'', Some ''A'')] = None"
    by simp
  then have "scanRows (tableOf unendingTable) [(''1'', Some ''A'')] 0 (length unendingTable) = None"
    by (simp add: scanRows.simps [of _ _ 0] unendingTable_def)
  then show ?thesis
    using k by (simp add: determineAssemblyId_def tryBlock_tableOf i)
qed

text \<open>
  C10. When the call returns, the props carry an assembly id: the caller's own (props
  unchanged), or \<open>'1'\<close>, or the assembly id of the first row of the category that
  every requested pair matches. The call returns whenever the assembly id was supplied,
  the accessor throws, or every operator expression of the category can be parsed.
\<close>

theorem assemblyId_defined_after:
  "(determineAssemblyId t p = Some r \<longrightarrow>
      (\<exists>a. assemblyId (fst r) = Some a \<and>
         ((assemblyKnown p \<and> fst r = p) \<or>
          a = ''1'' \<or>
          (\<exists>c j. t = Inr c \<and> firstMatchAt c (ids p) j a)))) \<and>
   (assemblyKnown p \<or> (\<exists>e. t = Inl e) \<or> (\<exists>c. t = Inr c \<and> operatorsParse c) \<longrightarrow>
      determineAssemblyId t p \<noteq> None)"
proof -
  have post: "\<exists>a. assemblyId (fst r) = Some a \<and>
         ((assemblyKnown p \<and> fst r = p) \<or> a = ''1'' \<or>
          (\<exists>c j. t = Inr c \<and> firstMatchAt c (ids p) j a))"
    if ret: "determineAssemblyId t p = Some r"
  proof (cases "assemblyKnown p")
    case True
    then obtain a where "assemblyId p = Some a"
      by (auto simp: assemblyKnown_def split: option.splits)
    then show ?thesis
      using True ret by (auto simp: determineAssemblyId_def)
  next
    case False
    from ret False obtain res where res: "tryBlock t (ids p) = Some res"
      by (auto simp: determineAssemblyId_def split: option.splits)
    show ?thesis
    proof (cases res)
      case (Inl e)
      then show ?thesis
        using False ret res by (auto simp: determineAssemblyId_def)
    next
      case (Inr found)
      show ?thesis
      proof (cases found)
        case None
        then show ?thesis
          using False ret res Inr by (auto simp: determineAssemblyId_def)
      next
        case (Some a)
        from res Inr Some obtain c where c: "t = Inr c"
          "scanRows c (ids p) 0 (rowCount c) = Some (Inr (Some a))"
          by (auto simp: tryBlock_def split: sum.splits)
        from scanRows_Some [OF c(2)] obtain j where
          "j < rowCount c" "arraySome (mismatch c j) (ids p) = Some (Inr False)"
          "\<forall>k. k < j \<longrightarrow> arraySome (mismatch c k) (ids p) = Some (Inr True)"
          "str (assembly_id c) j = Inr a"
          by auto
        then have "firstMatchAt c (ids p) j a"
          by (simp add: firstMatchAt_def list_all_iff)
        then show ?thesis
          using False ret res Inr Some c(1) by (auto simp: determineAssemblyId_def)
      qed
    qed
  qed
  show ?thesis
    using post determineAssemblyId_returns [of p t] by blast
qed

theorem assemblyId_defined_after_witness:
  "determineAssemblyId (Inr (tableOf exampleTable)) (exampleRequest None) =
     Some (exampleRequest (Some ''1''), []) \<and>
   assemblyId (exampleRequest (Some ''1'')) \<noteq> None \<and>
   firstMatchAt (tableOf exampleTable) (ids (exampleRequest None)) 0 ''1'' \<and>
   determineAssemblyId (Inr (tableOf laterMatchTable)) (exampleRequest None) \<noteq> None \<and>
   determineAssemblyId (Inl TypeError) (exampleRequest None) \<noteq> None \<and>
   determineAssemblyId (Inr (tableOf unendingTable)) (exampleRequest (Some ''3'')) \<noteq> None"
proof -
  have f: "firstMatchAt (tableOf exampleTable) (ids (exampleRequest None)) 0 ''1''"
    by code_simp
  have d: "determineAssemblyId (Inr (tableOf exampleTable)) (exampleRequest None) =
     Some (exampleRequest (Some ''1''), [])"
    by code_simp
  have "\<forall>r \<in> set laterMatchTable. parseOperatorList (row_oper_expression r) \<noteq> None"
    by code_simp
  then have o: "operatorsParse (tableOf laterMatchTable)"
    by (rule operatorsParse_tableOf)
  have k: "assemblyKnown (exampleRequest (Some ''3''))"
    by code_simp
  have "assemblyId (exampleRequest (Some ''1'')) \<noteq> None"
    using d assemblyId_defined_after
      [of "Inr (tableOf exampleTable)" "exampleRequest None" "(exampleRequest (Some ''1''), [])"]
    by auto
  then show ?thesis
    using f d o k
      assemblyId_defined_after [of "Inr (tableOf laterMatchTable)" "exampleRequest None" undefined]
      assemblyId_defined_after [of "Inl TypeError" "exampleRequest None" undefined]
      assemblyId_defined_after [of "Inr (tableOf unendingTable)" "exampleRequest (Some ''3'')" undefined]
    by auto
qed

section \<open>Properties of motif search submission\<close>

lemma submitLoop_eq:
  "i \<le> min MAX_MOTIF_SIZE (length loci) \<Longrightarrow>
   submitLoop loci i pdbId residueIds =
     (foldl setAdd pdbId (map entry (drop i (take MAX_MOTIF_SIZE loci))),
      residueIds @ map residueOf (drop i (take MAX_MOTIF_SIZE loci)))"
proof (induction loci i pdbId residueIds rule: submitLoop.induct)
  case (1 loci i pdbId residueIds)
  show ?case
  proof (cases "i < min MAX_MOTIF_SIZE (length loci)")
    case True
    then have dr: "drop i (take MAX_MOTIF_SIZE loci) = loci ! i # drop (Suc i) (take MAX_MOTIF_SIZE loci)"
      using Cons_nth_drop_Suc [of i "take MAX_MOTIF_SIZE loci"] by simp
    have "submitLoop loci i pdbId residueIds =
        submitLoop loci (i + 1) (setAdd pdbId (entry (loci ! i))) (residueIds @ [residueOf (loci ! i)])"
      by (subst submitLoop.simps) (simp only: True if_True)
    also have "\<dots> =
        (foldl setAdd (setAdd pdbId (entry (loci ! i))) (map entry (drop (i + 1) (take MAX_MOTIF_SIZE loci))),
         (residueIds @ [residueOf (loci ! i)]) @ map residueOf (drop (i + 1) (take MAX_MOTIF_SIZE loci)))"
      using True by (intro "1.IH" [OF True]) simp
    finally show ?thesis
      by (simp add: dr)
  next
    case False
    then have "length (take MAX_MOTIF_SIZE loci) \<le> i"
      by (simp add: min_def split: if_splits)
    then have d: "drop i (take MAX_MOTIF_SIZE loci) = []"
      by (rule drop_all)
    have "submitLoop loci i pdbId residueIds = (pdbId, residueIds)"
      by (subst submitLoop.simps) (simp only: False if_False)
    then show ?thesis
      by (simp add: d)
  qed
qed

lemma submitLoop_all:
  "submitLoop loci 0 [] [] =
     (foldl setAdd [] (map entry (take MAX_MOTIF_SIZE loci)), map residueOf (take MAX_MOTIF_SIZE loci))"
  using submitLoop_eq [of 0 loci "[]" "[]"] by simp

lemma foldl_setAdd_set: "set (foldl setAdd s xs) = set s \<union> set xs"
  by (induction xs arbitrary: s) (auto simp: setAdd_def)

lemma foldl_setAdd_distinct: "distinct s \<Longrightarrow> distinct (foldl setAdd s xs)"
  by (induction xs arbitrary: s) (auto simp: setAdd_def)

lemma length_entryIds: "length (entryIds loci) = card (entry ` set (take MAX_MOTIF_SIZE loci))"
proof -
  have "distinct (foldl setAdd [] (map entry (take MAX_MOTIF_SIZE loci)))"
    by (rule foldl_setAdd_distinct) simp
  then have "length (foldl setAdd [] (map entry (take MAX_MOTIF_SIZE loci)))
      = card (set (foldl setAdd [] (map entry (take MAX_MOTIF_SIZE loci))))"
    by (simp add: distinct_card)
  then show ?thesis
    by (simp add: entryIds_def submitLoop_all foldl_setAdd_set)
qed

lemma residueIds_bounded: "length (snd (submitLoop loci 0 [] [])) \<le> MAX_MOTIF_SIZE"
  by (simp add: submitLoop_all)

text \<open>The size warning is never given: the loop stops at \<open>MAX_MOTIF_SIZE\<close> residues.\<close>

lemma size_warning_unreachable:
  "snd (submitSearch loci) \<noteq> [''maximum motif size is 10 residues'']"
  using residueIds_bounded [of loci]
  by (auto simp: submitSearch_def split: prod.splits)

text \<open>
  C6. Motif submission. For a selection history within the motif size: when all
  selections come from one entry, the query holds one residue id per selection (three
  for three residues on chains \<open>A\<close> and \<open>B\<close>), its entry is that entry and the set of
  entry ids has size 1; when two selections come from different entries, the call
  warns on the console and builds no query.
\<close>

theorem submitSearch_single_entry:
  assumes "length loci \<le> MAX_MOTIF_SIZE"
  shows "(loci \<noteq> [] \<and> (\<forall>l \<in> set loci. entry l = e) \<longrightarrow>
      submitSearch loci =
        (Some \<lparr>data = Some e, residue_ids = map residueOf loci, score_cutoff = 5,
                return_type = ''assembly''\<rparr>, []) \<and>
      length (map residueOf loci) = length loci \<and>
      length (entryIds loci) = 1) \<and>
    ((\<exists>l1 \<in> set loci. \<exists>l2 \<in> set loci. entry l1 \<noteq> entry l2) \<longrightarrow>
      submitSearch loci = (None, [''motifs can only be extracted from a single model'']))"
proof -
  have tk: "take MAX_MOTIF_SIZE loci = loci"
    using assms by simp
  have loop: "submitLoop loci 0 [] [] = (entryIds loci, map residueOf loci)"
    by (simp add: entryIds_def submitLoop_all tk)
  have len: "length (entryIds loci) = card (entry ` set loci)"
    by (simp add: length_entryIds tk)
  have st: "set (entryIds loci) = entry ` set loci"
    by (simp add: entryIds_def submitLoop_all tk foldl_setAdd_set)
  have single: "submitSearch loci =
        (Some \<lparr>data = Some e, residue_ids = map residueOf loci, score_cutoff = 5,
                return_type = ''assembly''\<rparr>, []) \<and> length (entryIds loci) = 1"
    if ne: "loci \<noteq> []" and same: "\<forall>l \<in> set loci. entry l = e"
  proof -
    have "entry ` set loci = {e}"
      using ne same by (cases loci) auto
    then have one: "length (entryIds loci) = 1" and "set (entryIds loci) = {e}"
      using len st by simp_all
    then have "entryIds loci = [e]"
      by (cases "entryIds loci") auto
    then show ?thesis
      using assms one by (simp add: submitSearch_def loop)
  qed
  have multi: "submitSearch loci = (None, [''motifs can only be extracted from a single model''])"
    if "\<exists>l1 \<in> set loci. \<exists>l2 \<in> set loci. entry l1 \<noteq> entry l2"
  proof -
    from that obtain l1 l2 where l: "l1 \<in> set loci" "l2 \<in> set loci" "entry l1 \<noteq> entry l2"
      by blast
    have "card {entry l1, entry l2} \<le> card (entry ` set loci)"
      using l by (intro card_mono) auto
    then have "1 < length (entryIds loci)"
      using l(3) len by simp
    then show ?thesis
      by (simp add: submitSearch_def loop)
  qed
  show ?thesis
    using single multi by simp
qed

theorem submitSearch_single_entry_witness:
  "length threeLoci \<le> MAX_MOTIF_SIZE \<and> threeLoci \<noteq> [] \<and>
   map entry threeLoci = [''1ABC'', ''1ABC'', ''1ABC''] \<and>
   map res_label_asym_id (map residueOf threeLoci) = [''A'', ''A'', ''B''] \<and>
   map_option data (fst (submitSearch threeLoci)) = Some (Some ''1ABC'') \<and>
   map_option (\<lambda>q. length (residue_ids q)) (fst (submitSearch threeLoci)) = Some 3 \<and>
   snd (submitSearch threeLoci) = [] \<and>
   length (entryIds threeLoci) = 1 \<and>
   length mixedLoci \<le> MAX_MOTIF_SIZE \<and>
   map entry mixedLoci = [''1ABC'', ''1ABC'', ''2XYZ''] \<and>
   submitSearch mixedLoci = (None, [''motifs can only be extracted from a single model''])"
proof -
  have a: "length threeLoci \<le> MAX_MOTIF_SIZE"
    by (simp add: threeLoci_def MAX_MOTIF_SIZE_def)
  have b: "threeLoci \<noteq> [] \<and> (\<forall>l \<in> set threeLoci. entry l = ''1ABC'')"
    by (simp add: threeLoci_def)
  have c: "map res_label_asym_id (map residueOf threeLoci) = [''A'', ''A'', ''B'']"
    "length threeLoci = 3"
    by (simp_all add: threeLoci_def residueOf_def)
  have d: "length mixedLoci \<le> MAX_MOTIF_SIZE"
    by (simp add: mixedLoci_def MAX_MOTIF_SIZE_def)
  have e: "\<exists>l1 \<in> set mixedLoci. \<exists>l2 \<in> set mixedLoci. entry l1 \<noteq> entry l2"
    by code_simp
  have f: "map entry threeLoci = [''1ABC'', ''1ABC'', ''1ABC'']"
    "map entry mixedLoci = [''1ABC'', ''1ABC'', ''2XYZ'']"
    by (simp_all add: threeLoci_def mixedLoci_def)
  show ?thesis
    using a b c d e f submitSearch_single_entry [OF a, of "''1ABC''"] submitSearch_single_entry [OF d, of "''1ABC''"]
    by simp
qed

text \<open>
  C7 does not hold on the code. With eleven selections from one entry, \<open>submitSearch\<close>
  prints no warning and builds a query of the first ten residues: the loop stops at
  \<open>MAX_MOTIF_SIZE\<close>, so the later test \<open>residueIds.length > MAX_MOTIF_SIZE\<close> is never true.
\<close>

theorem oversized_selection_not_reported:
  "length elevenLoci = 11 \<and>
   snd (submitSearch elevenLoci) = [] \<and>
   map_option (\<lambda>q. length (residue_ids q)) (fst (submitSearch elevenLoci)) = Some 10 \<and>
   map_option data (fst (submitSearch elevenLoci)) = Some (Some ''1ABC'')"
  by code_simp

section \<open>The requested pairs are not deduplicated\<close>

lemma map_fst_allocate: "map fst (allocate n xs) = [n..<n + length xs]"
  by (induction xs arbitrary: n) (auto simp: upt_rec)

lemma map_snd_allocate: "map snd (allocate n xs) = xs"
  by (induction xs arbitrary: n) auto

lemma refIndexOfFrom_distinct:
  "distinct (map fst a) \<Longrightarrow> j < length a \<Longrightarrow> refIndexOfFrom a (fst (a ! j)) k = k + int j"
proof (induction a arbitrary: j k)
  case Nil
  then show ?case by simp
next
  case (Cons y ys)
  show ?case
  proof (cases j)
    case 0
    then show ?thesis by simp
  next
    case (Suc m)
    then have m: "m < length ys" using Cons.prems by simp
    then have "fst (ys ! m) \<in> set (map fst ys)"
      by (metis length_map nth_map nth_mem)
    moreover have "fst y \<notin> set (map fst ys)"
      using Cons.prems(1) by simp
    ultimately have "fst y \<noteq> fst (ys ! m)"
      by metis
    then show ?thesis
      using Suc m Cons.IH [of m "k + 1"] Cons.prems(1) by simp
  qed
qed

lemma filterIndexed_all:
  "(\<forall>j < length xs. f (xs ! j) (i + int j)) \<Longrightarrow> filterIndexed f xs i = xs"
proof (induction xs arbitrary: i)
  case Nil
  then show ?case by simp
next
  case (Cons x xs)
  have "f x i"
    using Cons.prems by fastforce
  moreover have "\<forall>j < length xs. f (xs ! j) (i + 1 + int j)"
  proof (intro allI impI)
    fix j assume "j < length xs"
    then have "f ((x # xs) ! Suc j) (i + int (Suc j))"
      using Cons.prems by (metis Suc_less_eq length_Cons)
    moreover have "i + int (Suc j) = i + 1 + int j"
      by simp
    ultimately show "f (xs ! j) (i + 1 + int j)"
      by (simp del: of_nat_Suc)
  qed
  ultimately show ?case
    using Cons.IH [of "i + 1"] by simp
qed

text \<open>The filter of \<open>ids\<close> removes nothing: every array is found at its own index.\<close>

lemma ids_keeps_all: "ids p = map idOf (targets p)"
proof -
  let ?a = "allocate 0 (map idOf (targets p))"
  have d: "distinct (map fst ?a)"
    by (simp add: map_fst_allocate)
  have "\<forall>j < length ?a. refIndexOf ?a (?a ! j) = 0 + int j"
    using refIndexOfFrom_distinct [OF d] by (simp add: refIndexOf_def)
  then have "filterIndexed (\<lambda>x i. refIndexOf ?a x = i) ?a 0 = ?a"
    by (intro filterIndexed_all) simp
  then show ?thesis
    by (simp add: ids_def Let_def map_snd_allocate)
qed

text \<open>
  C8 does not hold on the code. Three targets with the same operator and chain give
  three equal pairs: the filter \<open>a.indexOf(x) === i\<close> compares arrays by identity and
  removes nothing.
\<close>

theorem ids_not_deduplicated:
  "ids duplicateRequest = [(''1'', Some ''A''), (''1'', Some ''A''), (''1'', Some ''A'')] \<and>
   \<not> distinct (ids duplicateRequest)"
  by code_simp

end
